theory Spec2Isabelle
  imports Main "HOL-Library.Word"
begin

section \<open>The RGB-D example driver of ORB-SLAM2 (Examples/RGB-D/rgbd_tum.cc)\<close>

text \<open>
  The file has two functions. \<open>ProcessImages\<close> runs on a worker thread: it reads the
  association file, checks the number of images and feeds every frame to the tracker.
  \<open>main\<close> checks the argument count, constructs the SLAM system, starts the worker,
  runs the viewer, joins the worker, shuts the system down and saves two trajectories.

  What the program does to the outside world (the messages on \<open>cerr\<close>, the files it
  opens, the calls into OpenCV and into the SLAM system) is recorded as a list of events.
  What the outside world answers (file contents, decoded images, pressed keys, the value
  of a decimal numeral as a \<open>double\<close>) is a parameter of the model.
\<close>

subsection \<open>Input streams\<close>

text \<open>
  The part of \<open>std::istream\<close> the program uses: the characters not yet read and the two
  state bits \<open>failbit\<close> and \<open>eofbit\<close> (read errors of the device, \<open>badbit\<close>, are not
  modelled: a file that opens is read to its end).
\<close>

record istream =
  buf :: string
  failbit :: bool
  eofbit :: bool

definition good :: "istream \<Rightarrow> bool" where
  "good s = (\<not> failbit s \<and> \<not> eofbit s)"

definition eof :: "istream \<Rightarrow> bool" where
  "eof s = eofbit s"

text \<open>\<open>isspace\<close> and \<open>isdigit\<close> of the classic locale.\<close>

definition isspace :: "char \<Rightarrow> bool" where
  "isspace c = (c \<in> set [CHR '' '', CHR 0x09, CHR 0x0A, CHR 0x0B, CHR 0x0C, CHR 0x0D])"

definition isdigit :: "char \<Rightarrow> bool" where
  "isdigit c = (c \<in> set ''0123456789'')"

text \<open>
  \<open>ifstream::open\<close>: the argument is the content of the file, or \<open>None\<close> when the file
  cannot be opened; a failed open sets \<open>failbit\<close> and nothing else.
\<close>

definition ifstream_open :: "string option \<Rightarrow> istream" where
  "ifstream_open content =
     (case content of
        None \<Rightarrow> \<lparr>buf = [], failbit = True, eofbit = False\<rparr>
      | Some cs \<Rightarrow> \<lparr>buf = cs, failbit = False, eofbit = False\<rparr>)"

text \<open>
  \<open>std::getline(f, s)\<close> for a freshly constructed (empty) \<open>s\<close>. On a stream that is not
  good it sets \<open>failbit\<close> and leaves \<open>s\<close> empty. Otherwise it takes the characters up to
  the next newline, which it consumes; reaching the end of the input instead sets
  \<open>eofbit\<close>, and also \<open>failbit\<close> when nothing at all was extracted.
\<close>

definition getline :: "istream \<Rightarrow> string \<times> istream" where
  "getline f =
     (if \<not> good f then ([], f\<lparr>failbit := True\<rparr>)
      else
        let line = takeWhile (\<lambda>c. c \<noteq> CHR 0x0A) (buf f);
            rest = dropWhile (\<lambda>c. c \<noteq> CHR 0x0A) (buf f)
        in if rest = [] then (line, f\<lparr>buf := [], failbit := (line = []), eofbit := True\<rparr>)
           else (line, f\<lparr>buf := tl rest\<rparr>))"

text \<open>\<open>stringstream ss; ss << s\<close>: a good stream over the characters of \<open>s\<close>.\<close>

definition stringstream_of :: "string \<Rightarrow> istream" where
  "stringstream_of s = \<lparr>buf = s, failbit = False, eofbit = False\<rparr>"

text \<open>
  The sentry of a formatted extraction (\<open>operator>>\<close>): a stream that is not good gets
  \<open>failbit\<close>; otherwise leading white space is skipped, and running into the end of the
  input while skipping sets \<open>failbit\<close> and \<open>eofbit\<close>. The extraction proceeds only when
  the sentry returns \<open>True\<close>.
\<close>

definition sentry :: "istream \<Rightarrow> bool \<times> istream" where
  "sentry s =
     (if \<not> good s then (False, s\<lparr>failbit := True\<rparr>)
      else
        let r = dropWhile isspace (buf s)
        in if r = [] then (False, s\<lparr>buf := [], failbit := True, eofbit := True\<rparr>)
           else (True, s\<lparr>buf := r\<rparr>))"

text \<open>
  \<open>ss >> str\<close> for a \<open>std::string\<close>: the characters up to the next white space replace
  \<open>str\<close>; when the sentry fails \<open>str\<close> keeps its old value.
\<close>

definition extract_string :: "istream \<Rightarrow> string \<Rightarrow> string \<times> istream" where
  "extract_string s str =
     (case sentry s of
        (False, s1) \<Rightarrow> (str, s1)
      | (True, s1) \<Rightarrow>
          let tok = takeWhile (\<lambda>c. \<not> isspace c) (buf s1);
              r = dropWhile (\<lambda>c. \<not> isspace c) (buf s1)
          in (tok, s1\<lparr>buf := r, eofbit := (r = [])\<rparr>))"

text \<open>
  The characters \<open>num_get\<close> accepts for a floating-point field, as GNU libstdc++ scans
  them in the classic locale: an optional sign, leading zeros (kept as a single zero),
  then digits with at most one decimal point and, once a digit has been seen, at most one
  exponent mark with its optional sign. The result is the accumulated field and the
  characters left in the stream. \<open>float_body m d e\<close> is the main loop, with the flags
  "a mantissa digit was found", "a decimal point was found" and "an exponent was found".
\<close>

fun float_body :: "bool \<Rightarrow> bool \<Rightarrow> bool \<Rightarrow> string \<Rightarrow> string \<times> string" where
  "float_body m d e [] = ([], [])"
| "float_body m d e (c # cs) =
     (if isdigit c then
        (case float_body True d e cs of (xs, r) \<Rightarrow> (c # xs, r))
      else if c = CHR ''.'' \<and> \<not> d \<and> \<not> e then
        (case float_body m True e cs of (xs, r) \<Rightarrow> (c # xs, r))
      else if (c = CHR ''e'' \<or> c = CHR ''E'') \<and> \<not> e \<and> m then
        (case cs of
           [] \<Rightarrow> (''e'', [])
         | c' # cs' \<Rightarrow>
             if c' = CHR ''+'' \<or> c' = CHR ''-'' then
               (case float_body m d True cs' of (xs, r) \<Rightarrow> (CHR ''e'' # c' # xs, r))
             else
               (case float_body m d True cs of (xs, r) \<Rightarrow> (CHR ''e'' # xs, r)))
      else ([], c # cs))"

definition extract_float :: "string \<Rightarrow> string \<times> string" where
  "extract_float s =
     (let (sgn, r1) =
            (case s of
               [] \<Rightarrow> ([], [])
             | c # cs \<Rightarrow> if c = CHR ''+'' \<or> c = CHR ''-'' then ([c], cs) else ([], s));
          zeros = takeWhile (\<lambda>c. c = CHR ''0'') r1;
          r2 = dropWhile (\<lambda>c. c = CHR ''0'') r1;
          lead = (if zeros = [] then [] else ''0'')
      in case float_body (zeros \<noteq> []) False False r2 of
           (xs, r3) \<Rightarrow> (sgn @ lead @ xs, r3))"

subsection \<open>The environment of a run\<close>

text \<open>
  \<^item> \<open>fopen p\<close>: the content of the file at path \<open>p\<close>, \<open>None\<close> when it cannot be opened;
  \<^item> \<open>imread p\<close>: the matrix \<open>cv::imread\<close> returns for path \<open>p\<close>, \<open>None\<close> for the empty
    matrix (the file is missing or does not decode);
  \<^item> \<open>waitKey i\<close>: the value of the call \<open>cv::waitKey(1)\<close> made in iteration \<open>i\<close> of
    the frame loop;
  \<^item> \<open>convert_to_v xs\<close>: the \<open>double\<close> that \<open>strtod\<close> assigns to the scanned field \<open>xs\<close>
    and whether the conversion succeeded (on failure the library stores zero, or the
    largest value on overflow, and sets \<open>failbit\<close>). Floating-point values stay abstract:
    \<open>'t\<close> is the type \<open>double\<close>;
  \<^item> \<open>uninit\<close>: the indeterminate value of the uninitialised local \<open>double t\<close>.
\<close>

record ('img, 't) env =
  fopen :: "string \<Rightarrow> string option"
  imread :: "string \<Rightarrow> 'img option"
  waitKey :: "nat \<Rightarrow> int"
  convert_to_v :: "string \<Rightarrow> 't \<times> bool"
  uninit :: "'t"

text \<open>
  \<open>ss >> t\<close> for a \<open>double\<close>: when the sentry fails \<open>t\<close> keeps its old value; otherwise
  the scanned field is converted and stored, \<open>failbit\<close> is set when the conversion
  fails and \<open>eofbit\<close> when the scan reached the end of the input.
\<close>

definition extract_double :: "('img, 't) env \<Rightarrow> istream \<Rightarrow> 't \<Rightarrow> 't \<times> istream" where
  "extract_double E s t =
     (case sentry s of
        (False, s1) \<Rightarrow> (t, s1)
      | (True, s1) \<Rightarrow>
          (case extract_float (buf s1) of
             (xs, r) \<Rightarrow>
               (case convert_to_v E xs of
                  (v, ok) \<Rightarrow> (v, s1\<lparr>buf := r, failbit := \<not> ok, eofbit := (r = [])\<rparr>))))"

subsection \<open>Reading the association file\<close>

record 't vectors =
  vstrImageFilenamesRGB :: "string list"
  vstrImageFilenamesD :: "string list"
  vTimestamps :: "'t list"

definition no_vectors :: "'t vectors" where
  "no_vectors = \<lparr>vstrImageFilenamesRGB = [], vstrImageFilenamesD = [], vTimestamps = []\<rparr>"

text \<open>
  The body of \<open>if (!s.empty())\<close>: \<open>ss >> t >> sRGB >> t >> sD\<close> followed by the three
  \<open>push_back\<close>s. Both numeric fields are extracted into the same variable \<open>t\<close>.
\<close>

definition parse_line :: "('img, 't) env \<Rightarrow> string \<Rightarrow> string \<Rightarrow> 't vectors \<Rightarrow> 't vectors" where
  "parse_line E strSequencePath s vs =
     (case extract_double E (stringstream_of s) (uninit E) of (t1, ss1) \<Rightarrow>
      case extract_string ss1 [] of (sRGB, ss2) \<Rightarrow>
      case extract_double E ss2 t1 of (t, ss3) \<Rightarrow>
      case extract_string ss3 [] of (sD, ss4) \<Rightarrow>
        \<lparr>vstrImageFilenamesRGB = vstrImageFilenamesRGB vs @ [strSequencePath @ ''/'' @ sRGB],
         vstrImageFilenamesD = vstrImageFilenamesD vs @ [strSequencePath @ ''/'' @ sD],
         vTimestamps = vTimestamps vs @ [t]\<rparr>)"

text \<open>
  \<open>while (!fAssociation.eof()) { getline(fAssociation, s); if (!s.empty()) ... }\<close>.
  The loop need not end (a stream with \<open>failbit\<close> but not \<open>eofbit\<close> never changes), so it
  runs on fuel: \<open>None\<close> means that the loop is still running after \<open>n\<close> iterations.
\<close>

primrec read_loop ::
  "nat \<Rightarrow> ('img, 't) env \<Rightarrow> string \<Rightarrow> istream \<Rightarrow> 't vectors \<Rightarrow> 't vectors option" where
  "read_loop 0 E strSequencePath f vs = None"
| "read_loop (Suc n) E strSequencePath f vs =
     (if eof f then Some vs
      else case getline f of (s, f') \<Rightarrow>
        read_loop n E strSequencePath f'
          (if s \<noteq> [] then parse_line E strSequencePath s vs else vs))"

text \<open>
  Lines 20 to 42 of the source: open the association file and run the loop on the three
  empty vectors.
\<close>

definition read_association ::
  "nat \<Rightarrow> ('img, 't) env \<Rightarrow> string \<Rightarrow> string \<Rightarrow> 't vectors option" where
  "read_association fuel E strAssociationFilename strSequencePath =
     (let fAssociation = ifstream_open (fopen E strAssociationFilename)
      in read_loop fuel E strSequencePath fAssociation no_vectors)"

subsection \<open>Events\<close>

text \<open>
  One event for every action on the outside world, in the order of the source:
  \<open>Cerr m\<close> writes the text \<open>m\<close> to \<open>cerr\<close>, \<open>Fopen p\<close> is the attempt to open the
  file \<open>p\<close>, \<open>Imread p\<close> the call \<open>cv::imread(p, cv::IMREAD_UNCHANGED)\<close>,
  \<open>TrackRGBD\<close> the call of the tracker with the two matrices and the timestamp,
  \<open>WaitKey d\<close> the call \<open>cv::waitKey(d)\<close>, \<open>Construct\<close> the construction of the SLAM
  system from the vocabulary and the settings, \<open>Spawn\<close> the construction of the thread
  that runs \<open>ProcessImages\<close>. An event of the worker stands for a complete call. A
  \<open>cv::Mat\<close> is \<open>'img option\<close>, with \<open>None\<close> for the empty matrix. \<open>RunViewer\<close> runs
  while the worker is working, so its call and its return are two events; \<open>Join\<close> is the
  return of \<open>processingThread.join()\<close>.
\<close>

datatype ('img, 't) event =
    Cerr string
  | Fopen string
  | Imread string
  | TrackRGBD "'img option" "'img option" 't
  | WaitKey int
  | Construct string string
  | Spawn
  | RunViewer_call
  | RunViewer_return
  | Join
  | Shutdown
  | SaveTrajectoryTUM string
  | SaveKeyFrameTrajectoryTUM string

text \<open>How a call of \<open>ProcessImages\<close> ends: one constructor for every way out of it.\<close>

datatype outcome =
    NoImages
  | CountMismatch
  | LoadFailed
  | EscPressed
  | AllProcessed
  | OutOfRange

definition endl :: string where
  "endl = [CHR 0x0A]"

subsection \<open>The frame loop\<close>

text \<open>
  \<open>for (int ni = 0; ni < nImages; ni++)\<close>. Reading a vector outside its range is
  undefined in C++; the model ends the loop with \<open>OutOfRange\<close> there. The key code is
  cast to \<open>char\<close> (eight bits) before it is compared with 27.
\<close>

definition emit :: "'e list \<Rightarrow> 'e list \<times> 'r \<Rightarrow> 'e list \<times> 'r" where
  "emit es p = (es @ fst p, snd p)"

function track_loop ::
  "('img, 't) env \<Rightarrow> 't vectors \<Rightarrow> int \<Rightarrow> int \<Rightarrow> ('img, 't) event list \<times> outcome" where
  "track_loop E vs nImages ni =
     (if ni < nImages then
        (if 0 \<le> ni \<and> nat ni < length (vstrImageFilenamesRGB vs)
            \<and> nat ni < length (vstrImageFilenamesD vs)
            \<and> nat ni < length (vTimestamps vs) then
           (let imRGB = imread E (vstrImageFilenamesRGB vs ! nat ni);
                imD = imread E (vstrImageFilenamesD vs ! nat ni);
                tframe = vTimestamps vs ! nat ni;
                reads = [Imread (vstrImageFilenamesRGB vs ! nat ni),
                         Imread (vstrImageFilenamesD vs ! nat ni)]
            in if imRGB = None then
                 (reads @ [Cerr (endl @ ''Failed to load image at: ''
                                  @ vstrImageFilenamesRGB vs ! nat ni @ endl)], LoadFailed)
               else if (word_of_int (waitKey E (nat ni)) :: 8 word) = 27 then
                 (reads @ [TrackRGBD imRGB imD tframe, WaitKey 1], EscPressed)
               else
                 emit (reads @ [TrackRGBD imRGB imD tframe, WaitKey 1])
                   (track_loop E vs nImages (ni + 1)))
         else ([], OutOfRange))
      else ([], AllProcessed))"
  by pat_completeness auto
termination
  by (relation "measure (\<lambda>(E, vs, nImages, ni). nat (nImages - ni))") auto

declare track_loop.simps [simp del]

subsection \<open>ProcessImages\<close>

text \<open>
  The events of the worker and how it ended, \<open>None\<close> while it has not returned: \<open>fuel\<close>
  bounds the iterations of the reading loop that are observed. \<open>nImages\<close> is an \<open>int\<close>
  initialised from a \<open>size_t\<close>, that is, the size reduced to 32 bits and read as signed.
\<close>

definition ProcessImages ::
  "nat \<Rightarrow> ('img, 't) env \<Rightarrow> string \<Rightarrow> string \<Rightarrow> ('img, 't) event list \<times> outcome option" where
  "ProcessImages fuel E strAssociationFilename strSequencePath =
     (case read_association fuel E strAssociationFilename strSequencePath of
        None \<Rightarrow> ([Fopen strAssociationFilename], None)
      | Some vs \<Rightarrow>
          (let nImages = sint (word_of_nat (length (vstrImageFilenamesRGB vs)) :: 32 word)
           in if vstrImageFilenamesRGB vs = [] then
                ([Fopen strAssociationFilename,
                  Cerr (endl @ ''No images found in provided path.'' @ endl)],
                 Some NoImages)
              else if length (vstrImageFilenamesD vs) \<noteq> length (vstrImageFilenamesRGB vs) then
                ([Fopen strAssociationFilename,
                  Cerr (endl @ ''Number of RGB and depth images do not match.'' @ endl)],
                 Some CountMismatch)
              else
                (case track_loop E vs nImages 0 of
                   (es, r) \<Rightarrow> (Fopen strAssociationFilename # es, Some r))))"

subsection \<open>main\<close>

text \<open>
  The result is the set of event sequences the run can show and the exit code, \<open>None\<close>
  while the process has not exited. \<open>argc\<close> is the length of \<open>argv\<close>. The two threads
  interleave freely between the start of the worker and the return of \<open>join\<close>, which
  waits for the worker to return: as long as the worker is running, \<open>main\<close> does not get
  past \<open>join\<close>. The calls into the SLAM system are taken to return.
\<close>

definition usage :: string where
  "usage = endl @ ''Usage: ./rgbd_tum path_to_vocabulary path_to_settings path_to_sequence path_to_association'' @ endl"

definition main ::
  "nat \<Rightarrow> ('img, 't) env \<Rightarrow> string list \<Rightarrow> ('img, 't) event list set \<times> int option" where
  "main fuel E argv =
     (let argc = int (length argv)
      in if argc \<noteq> 5 then ({[Cerr usage]}, Some 1)
         else
           (case ProcessImages fuel E (argv ! 4) (argv ! 3) of
              (worker, None) \<Rightarrow>
                ((\<lambda>zs. [Construct (argv ! 1) (argv ! 2), Spawn] @ zs)
                   ` shuffles [RunViewer_call, RunViewer_return] worker,
                 None)
            | (worker, Some r) \<Rightarrow>
                ((\<lambda>zs. [Construct (argv ! 1) (argv ! 2), Spawn] @ zs
                         @ [Join, Shutdown, SaveTrajectoryTUM ''CameraTrajectory.txt'',
                            SaveKeyFrameTrajectoryTUM ''KeyFrameTrajectory.txt''])
                   ` shuffles [RunViewer_call, RunViewer_return] worker,
                 Some 0)))"

subsection \<open>A concrete run\<close>

text \<open>
  An environment for the examples. Images are numbers, and a \<open>double\<close> is written as the
  text of its numeral, so \<open>''2.0''\<close> is the value of the field \<open>2.0\<close>; every field the
  examples contain is a numeral that \<open>strtod\<close> converts.
\<close>

definition example_env :: "(string \<times> string) list \<Rightarrow> (string \<times> nat) list \<Rightarrow> int list \<Rightarrow> (nat, string) env" where
  "example_env files images keys =
     \<lparr>fopen = map_of files,
      imread = map_of images,
      waitKey = (\<lambda>i. if i < length keys then keys ! i else -1),
      convert_to_v = (\<lambda>xs. (xs, list_ex isdigit xs)),
      uninit = ''indeterminate''\<rparr>"

subsection \<open>Notions used to state the properties\<close>

text \<open>
  The lines of a text, as a reader of the manifest counts them: the pieces between
  newline characters. \<open>nonempty_lines\<close> are those that contain at least one character.
\<close>

function text_lines :: "string \<Rightarrow> string list" where
  "text_lines cs =
     (let l = takeWhile (\<lambda>c. c \<noteq> CHR 0x0A) cs;
          r = dropWhile (\<lambda>c. c \<noteq> CHR 0x0A) cs
      in if r = [] then [l] else l # text_lines (tl r))"
  by pat_completeness auto
termination
proof (relation "measure length")
  show "wf (measure length)" by simp
next
  fix cs :: string and x xa
  assume "xa = dropWhile (\<lambda>c. c \<noteq> CHR 0x0A) cs" and "xa \<noteq> []"
  then have "length (tl xa) < length xa" and "length xa \<le> length cs"
    by (simp_all add: length_dropWhile_le del: dropWhile_eq_Nil_conv)
  then show "(tl xa, cs) \<in> measure length"
    by simp
qed

declare text_lines.simps [simp del]

definition nonempty_lines :: "string \<Rightarrow> string list" where
  "nonempty_lines cs = filter (\<lambda>l. l \<noteq> []) (text_lines cs)"

text \<open>
  A timestamp field is a non-empty piece of text that the floating-point scanner reads
  to its end and that converts to a \<open>double\<close>, its value. A path token is a non-empty
  piece of text without white space, and \<open>blanks\<close> is a non-empty run of white space.
\<close>

definition timestamp_field :: "('img, 't) env \<Rightarrow> string \<Rightarrow> bool" where
  "timestamp_field E ts =
     (ts \<noteq> [] \<and> snd (extract_float ts) = [] \<and> snd (convert_to_v E (fst (extract_float ts))))"

definition timestamp_value :: "('img, 't) env \<Rightarrow> string \<Rightarrow> 't" where
  "timestamp_value E ts = fst (convert_to_v E (fst (extract_float ts)))"

definition path_token :: "string \<Rightarrow> bool" where
  "path_token p = (p \<noteq> [] \<and> list_all (\<lambda>c. \<not> isspace c) p)"

definition blanks :: "string \<Rightarrow> bool" where
  "blanks w = (w \<noteq> [] \<and> list_all isspace w)"

text \<open>
  The cancellation test of the loop, \<open>(char)cv::waitKey(1) == 27\<close>, for the poll made in
  iteration \<open>i\<close>.
\<close>

definition esc_pressed :: "('img, 't) env \<Rightarrow> nat \<Rightarrow> bool" where
  "esc_pressed E i = ((word_of_int (waitKey E i) :: 8 word) = 27)"

text \<open>
  The events of one complete iteration of the frame loop for index \<open>i\<close> (two reads, the
  call of the tracker, the poll), and those of an iteration in which the colour image is
  empty (two reads and the message).
\<close>

definition frame_events :: "('img, 't) env \<Rightarrow> 't vectors \<Rightarrow> nat \<Rightarrow> ('img, 't) event list" where
  "frame_events E vs i =
     [Imread (vstrImageFilenamesRGB vs ! i),
      Imread (vstrImageFilenamesD vs ! i),
      TrackRGBD (imread E (vstrImageFilenamesRGB vs ! i)) (imread E (vstrImageFilenamesD vs ! i))
        (vTimestamps vs ! i),
      WaitKey 1]"

definition load_failure_events :: "'t vectors \<Rightarrow> nat \<Rightarrow> ('img, 't) event list" where
  "load_failure_events vs i =
     [Imread (vstrImageFilenamesRGB vs ! i),
      Imread (vstrImageFilenamesD vs ! i),
      Cerr (endl @ ''Failed to load image at: '' @ vstrImageFilenamesRGB vs ! i @ endl)]"

text \<open>The three vectors have the same number of elements.\<close>

definition same_sizes :: "'t vectors \<Rightarrow> bool" where
  "same_sizes vs =
     (length (vstrImageFilenamesD vs) = length (vstrImageFilenamesRGB vs)
      \<and> length (vTimestamps vs) = length (vstrImageFilenamesRGB vs))"

text \<open>
  Kinds of events: a call of the tracker (an ingestion), a poll of the keyboard, an event
  that only \<open>ProcessImages\<close> produces, and a trajectory export.
\<close>

definition is_ingest :: "('img, 't) event \<Rightarrow> bool" where
  "is_ingest e = (case e of TrackRGBD a b t \<Rightarrow> True | _ \<Rightarrow> False)"

definition is_poll :: "('img, 't) event \<Rightarrow> bool" where
  "is_poll e = (case e of WaitKey d \<Rightarrow> True | _ \<Rightarrow> False)"

definition worker_event :: "('img, 't) event \<Rightarrow> bool" where
  "worker_event e =
     (case e of
        Cerr m \<Rightarrow> True
      | Fopen p \<Rightarrow> True
      | Imread p \<Rightarrow> True
      | TrackRGBD a b t \<Rightarrow> True
      | WaitKey d \<Rightarrow> True
      | _ \<Rightarrow> False)"

definition is_export :: "('img, 't) event \<Rightarrow> bool" where
  "is_export e =
     (case e of SaveTrajectoryTUM p \<Rightarrow> True | SaveKeyFrameTrajectoryTUM p \<Rightarrow> True | _ \<Rightarrow> False)"

text \<open>
  In a sequence of events, every call of the tracker is followed at once by a poll, and a
  poll occurs nowhere else.
\<close>

fun poll_follows_ingest :: "('img, 't) event list \<Rightarrow> bool" where
  "poll_follows_ingest [] = True"
| "poll_follows_ingest [e] = (\<not> is_ingest e \<and> \<not> is_poll e)"
| "poll_follows_ingest (e # e' # es) =
     (if is_ingest e then is_poll e' \<and> poll_follows_ingest es
      else \<not> is_poll e \<and> poll_follows_ingest (e' # es))"

text \<open>The four calls that end \<open>main\<close>, in the order of the source.\<close>

definition final_calls :: "('img, 't) event list" where
  "final_calls =
     [Join, Shutdown, SaveTrajectoryTUM ''CameraTrajectory.txt'',
      SaveKeyFrameTrajectoryTUM ''KeyFrameTrajectory.txt'']"

text \<open>
  Command lines and environments for the examples: a manifest of one frame and one of two
  frames whose images all decode, with the keys that the polls return; a run over the
  manifest of one frame, and the three vectors read from the manifest of two frames.
\<close>

definition example_argv :: "string \<Rightarrow> string list" where
  "example_argv assoc = [''./rgbd_tum'', ''voc'', ''settings'', ''seq'', assoc]"

definition one_frame_env :: "(nat, string) env" where
  "one_frame_env =
     example_env [(''assoc.txt'', ''1.0 rgb/1.png 1.0 depth/1.png'' @ endl)]
       [(''seq/rgb/1.png'', 1), (''seq/depth/1.png'', 2)] []"

definition one_frame_run :: "(nat, string) event list" where
  "one_frame_run =
     [Construct ''voc'' ''settings'', Spawn, RunViewer_call, Fopen ''assoc.txt'',
      Imread ''seq/rgb/1.png'', Imread ''seq/depth/1.png'',
      TrackRGBD (Some 1) (Some 2) ''1.0'', WaitKey 1, RunViewer_return, Join, Shutdown,
      SaveTrajectoryTUM ''CameraTrajectory.txt'',
      SaveKeyFrameTrajectoryTUM ''KeyFrameTrajectory.txt'']"

definition two_frame_env :: "int list \<Rightarrow> (nat, string) env" where
  "two_frame_env keys =
     example_env
       [(''assoc.txt'', ''1.0 rgb/1.png 1.0 depth/1.png'' @ endl @ ''2.0 rgb/2.png 2.0 depth/2.png'' @ endl)]
       [(''seq/rgb/1.png'', 1), (''seq/depth/1.png'', 2), (''seq/rgb/2.png'', 3), (''seq/depth/2.png'', 4)]
       keys"

definition two_frame_vectors :: "string vectors" where
  "two_frame_vectors =
     \<lparr>vstrImageFilenamesRGB = [''seq/rgb/1.png'', ''seq/rgb/2.png''],
      vstrImageFilenamesD = [''seq/depth/1.png'', ''seq/depth/2.png''],
      vTimestamps = [''1.0'', ''2.0'']\<rparr>"

section \<open>Properties\<close>

subsection \<open>The reading loop\<close>

text \<open>
  On a stream that failed to open the loop never ends. A result, once reached, does not
  change with more fuel. On a stream that opened, fuel above the number of characters is
  enough, and the result is the fold of \<open>parse_line\<close> over the non-empty lines.
\<close>

lemma read_loop_failed:
  "failbit f \<Longrightarrow> \<not> eofbit f \<Longrightarrow> read_loop n E sp f vs = None"
proof (induction n arbitrary: vs)
  case 0
  show ?case by simp
next
  case (Suc n)
  have g: "getline f = ([], f)"
    using Suc.prems by (simp add: getline_def good_def)
  show ?case
    using Suc by (simp add: eof_def g)
qed

lemma read_loop_mono:
  "read_loop n E sp f vs = Some r \<Longrightarrow> n \<le> m \<Longrightarrow> read_loop m E sp f vs = Some r"
proof (induction n arbitrary: m f vs)
  case 0
  then show ?case by simp
next
  case (Suc n)
  then obtain m' where m: "m = Suc m'" "n \<le> m'"
    by (cases m) auto
  show ?case
    using Suc.prems(1) Suc.IH [OF _ m(2)]
    by (auto simp: m split: if_splits prod.splits)
qed

lemma read_loop_lines:
  "\<not> failbit f \<Longrightarrow> \<not> eofbit f \<Longrightarrow> length (buf f) + 2 \<le> n \<Longrightarrow>
   read_loop n E sp f vs =
     Some (foldl (\<lambda>v l. parse_line E sp l v) vs (nonempty_lines (buf f)))"
proof (induction n arbitrary: f vs)
  case 0
  then show ?case by simp
next
  case (Suc n)
  let ?l = "takeWhile (\<lambda>c. c \<noteq> CHR 0x0A) (buf f)"
  let ?r = "dropWhile (\<lambda>c. c \<noteq> CHR 0x0A) (buf f)"
  let ?vs = "if ?l \<noteq> [] then parse_line E sp ?l vs else vs"
  show ?case
  proof (cases "?r = []")
    case True
    then have g: "getline f = (?l, f\<lparr>buf := [], failbit := (?l = []), eofbit := True\<rparr>)"
      using Suc.prems by (simp add: getline_def good_def Let_def del: dropWhile_eq_Nil_conv)
    obtain k where k: "n = Suc k" using Suc.prems(3) by (cases n) auto
    have tl: "text_lines (buf f) = [?l]"
      using True by (subst text_lines.simps) (simp add: Let_def del: dropWhile_eq_Nil_conv)
    show ?thesis
      using Suc.prems(2) by (simp add: eof_def g k nonempty_lines_def tl)
  next
    case False
    then have g: "getline f = (?l, f\<lparr>buf := tl ?r\<rparr>)"
      using Suc.prems by (simp add: getline_def good_def Let_def del: dropWhile_eq_Nil_conv)
    have len: "length (tl ?r) < length (buf f)"
      using False length_dropWhile_le [of "\<lambda>c. c \<noteq> CHR 0x0A" "buf f"]
      by (cases ?r) auto
    have tl: "text_lines (buf f) = ?l # text_lines (tl ?r)"
      using False by (subst text_lines.simps) (simp add: Let_def del: dropWhile_eq_Nil_conv)
    have "read_loop n E sp (f\<lparr>buf := tl ?r\<rparr>) ?vs =
            Some (foldl (\<lambda>v l. parse_line E sp l v) ?vs (nonempty_lines (buf (f\<lparr>buf := tl ?r\<rparr>))))"
      using Suc.prems len by (intro Suc.IH) auto
    then show ?thesis
      using Suc.prems(2) by (simp add: eof_def g nonempty_lines_def tl)
  qed
qed

subsection \<open>The scanner on a field that is followed by white space\<close>

lemma isspace_cases:
  "isspace c \<Longrightarrow> \<not> isdigit c \<and> c \<noteq> CHR ''.'' \<and> c \<noteq> CHR ''e'' \<and> c \<noteq> CHR ''E''
     \<and> c \<noteq> CHR ''+'' \<and> c \<noteq> CHR ''-'' \<and> c \<noteq> CHR ''0''"
  by (auto simp: isspace_def isdigit_def)

lemma float_body_append:
  "snd (float_body m d e xs) = [] \<Longrightarrow> isspace c \<Longrightarrow>
   float_body m d e (xs @ c # r) = (fst (float_body m d e xs), c # r)"
proof (induction m d e xs rule: float_body.induct)
  case (1 m d e)
  then show ?case
    using isspace_cases [of c] by simp
next
  case (2 m d e x xs)
  note sp = isspace_cases [OF "2.prems"(2)]
  show ?case
  proof (cases "isdigit x")
    case True
    with 2 show ?thesis by (simp split: prod.splits)
  next
    case nd: False
    show ?thesis
    proof (cases "x = CHR ''.'' \<and> \<not> d \<and> \<not> e")
      case True
      with nd 2 show ?thesis by (simp split: prod.splits)
    next
      case ndot: False
      show ?thesis
      proof (cases "(x = CHR ''e'' \<or> x = CHR ''E'') \<and> \<not> e \<and> m")
        case False
        with nd ndot "2.prems" show ?thesis by auto
      next
        case ex: True
        then have x: "x \<noteq> CHR ''.''" "\<not> e" "m" "x = CHR ''e'' \<or> x = CHR ''E''"
          by auto
        have unf: "float_body m d e (x # zs) =
            (case zs of
               [] \<Rightarrow> (''e'', [])
             | c' # cs' \<Rightarrow>
                 if c' = CHR ''+'' \<or> c' = CHR ''-'' then
                   (case float_body m d True cs' of (xs, r) \<Rightarrow> (CHR ''e'' # c' # xs, r))
                 else
                   (case float_body m d True zs of (xs, r) \<Rightarrow> (CHR ''e'' # xs, r)))" for zs
          using nd x by (subst float_body.simps) simp
        show ?thesis
        proof (cases xs)
          case Nil
          have "float_body m d True (c # r) = ([], c # r)"
            using sp by simp
          with Nil sp show ?thesis by (simp add: unf del: float_body.simps)
        next
          case (Cons y ys)
          show ?thesis
          proof (cases "y = CHR ''+'' \<or> y = CHR ''-''")
            case True
            have "snd (float_body m d True ys) = []"
              using "2.prems"(1) True by (simp add: unf Cons del: float_body.simps split: prod.splits)
            from "2.IH"(3) [OF nd ndot ex Cons True this "2.prems"(2)]
            show ?thesis
              using True by (simp add: unf Cons del: float_body.simps split: prod.splits)
          next
            case False
            have "snd (float_body m d True xs) = []"
              using "2.prems"(1) False by (simp add: unf Cons del: float_body.simps split: prod.splits)
            from "2.IH"(4) [OF nd ndot ex Cons False this "2.prems"(2)]
            show ?thesis
              using False by (simp add: unf Cons del: float_body.simps split: prod.splits)
          qed
        qed
      qed
    qed
  qed
qed

lemma extract_float_append:
  assumes "xs \<noteq> []" "snd (extract_float xs) = []" "isspace c"
  shows "extract_float (xs @ c # r) = (fst (extract_float xs), c # r)"
proof -
  note sp = isspace_cases [OF assms(3)]
  obtain x xs' where xs: "xs = x # xs'" using assms(1) by (cases xs) auto
  define r1 where "r1 = (if x = CHR ''+'' \<or> x = CHR ''-'' then xs' else xs)"
  define sg where "sg = (if x = CHR ''+'' \<or> x = CHR ''-'' then [x] else [])"
  define z where "z = takeWhile (\<lambda>c. c = CHR ''0'') r1"
  define r2 where "r2 = dropWhile (\<lambda>c. c = CHR ''0'') r1"
  have s1: "(case xs of [] \<Rightarrow> ([], [])
              | c # cs \<Rightarrow> if c = CHR ''+'' \<or> c = CHR ''-'' then ([c], cs) else ([], xs)) = (sg, r1)"
    by (simp add: xs sg_def r1_def)
  have s2: "(case xs @ c # r of [] \<Rightarrow> ([], [])
              | c' # cs \<Rightarrow> if c' = CHR ''+'' \<or> c' = CHR ''-'' then ([c'], cs) else ([], xs @ c # r))
            = (sg, r1 @ c # r)"
    by (simp add: xs sg_def r1_def)
  have e1: "extract_float xs = (case float_body (z \<noteq> []) False False r2 of
              (ys, r3) \<Rightarrow> (sg @ (if z = [] then [] else ''0'') @ ys, r3))"
    unfolding extract_float_def s1
    by (simp add: z_def r2_def Let_def del: takeWhile_eq_Nil_iff float_body.simps)
  have tw: "takeWhile (\<lambda>c. c = CHR ''0'') (r1 @ c # r) = z"
    and dw: "dropWhile (\<lambda>c. c = CHR ''0'') (r1 @ c # r) = r2 @ c # r"
    using sp by (simp_all add: z_def r2_def takeWhile_append dropWhile_append
        takeWhile_eq_all_conv [THEN iffD2] dropWhile_eq_Nil_conv [THEN iffD2])
  have e2: "extract_float (xs @ c # r) = (case float_body (z \<noteq> []) False False (r2 @ c # r) of
              (ys, r3) \<Rightarrow> (sg @ (if z = [] then [] else ''0'') @ ys, r3))"
    unfolding extract_float_def s2
    by (simp add: tw dw Let_def del: takeWhile_eq_Nil_iff float_body.simps)
  have fb: "snd (float_body (z \<noteq> []) False False r2) = []"
    using assms(2) by (simp add: e1 split: prod.splits)
  show ?thesis
    by (simp add: e2 e1 float_body_append [OF fb assms(3)] split: prod.splits)
qed

lemma timestamp_field_hd:
  assumes "ts \<noteq> []" "snd (extract_float ts) = []"
  shows "\<not> isspace (hd ts)"
proof
  assume sp: "isspace (hd ts)"
  obtain x xs where ts: "ts = x # xs" using assms(1) by (cases ts) auto
  note c = isspace_cases [of x]
  have "extract_float ts = ([], ts)"
    using sp c by (simp add: ts extract_float_def)
  with assms show False by simp
qed

lemma sentry_skip:
  assumes "good s" "buf s = w @ x # r" "list_all isspace w" "\<not> isspace x"
  shows "sentry s = (True, s\<lparr>buf := x # r\<rparr>)"
proof -
  have "dropWhile isspace (buf s) = x # r"
    using assms by (simp add: dropWhile_append list_all_iff)
  then show ?thesis
    using assms(1) by (simp add: sentry_def Let_def)
qed

lemma good_flags:
  "good s \<Longrightarrow> s\<lparr>buf := b, failbit := False, eofbit := False\<rparr> = s\<lparr>buf := b\<rparr>"
  by (cases s) (simp add: good_def)

lemma extract_double_field:
  assumes "good s" "buf s = w @ ts @ c # r" "list_all isspace w"
    and "timestamp_field E ts" "isspace c"
  shows "extract_double E s t = (timestamp_value E ts, s\<lparr>buf := c # r\<rparr>)"
proof -
  from assms(4) have ts: "ts \<noteq> []" "snd (extract_float ts) = []"
    and ok: "snd (convert_to_v E (fst (extract_float ts)))"
    by (simp_all add: timestamp_field_def)
  obtain x xs where x: "ts = x # xs" using ts(1) by (cases ts) auto
  have nsp: "\<not> isspace x"
    using timestamp_field_hd [OF ts] by (simp add: x)
  have se: "sentry s = (True, s\<lparr>buf := ts @ c # r\<rparr>)"
    using sentry_skip [OF assms(1) _ assms(3) nsp, of "xs @ c # r"] assms(2) by (simp add: x)
  have g: "\<not> failbit s" "\<not> eofbit s"
    using assms(1) by (simp_all add: good_def)
  show ?thesis
    using ok good_flags [OF assms(1), of "c # r"]
    by (auto simp: extract_double_def se extract_float_append [OF ts assms(5)]
        timestamp_value_def split: prod.splits)
qed

lemma extract_string_token:
  assumes "good s" "buf s = w @ p @ r" "list_all isspace w" "path_token p"
    and "r = [] \<or> isspace (hd r)"
  shows "extract_string s str = (p, s\<lparr>buf := r, eofbit := (r = [])\<rparr>)"
proof -
  from assms(4) have p: "p \<noteq> []" "list_all (\<lambda>c. \<not> isspace c) p"
    by (simp_all add: path_token_def)
  obtain x xs where x: "p = x # xs" using p(1) by (cases p) auto
  have se: "sentry s = (True, s\<lparr>buf := p @ r\<rparr>)"
    using sentry_skip [OF assms(1) _ assms(3), of x "xs @ r"] assms(2) p(2) by (simp add: x)
  have tw: "takeWhile (\<lambda>c. \<not> isspace c) (p @ r) = p"
    and dw: "dropWhile (\<lambda>c. \<not> isspace c) (p @ r) = r"
    using p(2) assms(5) by (cases r; simp add: takeWhile_append dropWhile_append list_all_iff)+
  show ?thesis
    by (simp add: extract_string_def se tw dw Let_def del: dropWhile_eq_Nil_conv)
qed

lemma parse_line_fields:
  assumes "timestamp_field E ts1" "blanks w1" "path_token rgb" "blanks w2"
    and "timestamp_field E ts2" "blanks w3" "path_token dep"
  shows "parse_line E sp (ts1 @ w1 @ rgb @ w2 @ ts2 @ w3 @ dep) vs =
           \<lparr>vstrImageFilenamesRGB = vstrImageFilenamesRGB vs @ [sp @ ''/'' @ rgb],
            vstrImageFilenamesD = vstrImageFilenamesD vs @ [sp @ ''/'' @ dep],
            vTimestamps = vTimestamps vs @ [timestamp_value E ts2]\<rparr>"
proof -
  obtain c1 r1 where w1: "w1 = c1 # r1" "isspace c1" "list_all isspace w1"
    using assms(2) by (cases w1) (auto simp: blanks_def)
  obtain c2 r2 where w2: "w2 = c2 # r2" "isspace c2" "list_all isspace w2"
    using assms(4) by (cases w2) (auto simp: blanks_def)
  obtain c3 r3 where w3: "w3 = c3 # r3" "isspace c3" "list_all isspace w3"
    using assms(6) by (cases w3) (auto simp: blanks_def)
  let ?s0 = "stringstream_of (ts1 @ w1 @ rgb @ w2 @ ts2 @ w3 @ dep)"
  let ?s1 = "?s0\<lparr>buf := w1 @ rgb @ w2 @ ts2 @ w3 @ dep\<rparr>"
  let ?s2 = "?s0\<lparr>buf := w2 @ ts2 @ w3 @ dep\<rparr>"
  let ?s3 = "?s0\<lparr>buf := w3 @ dep\<rparr>"
  have g: "good ?s0" "good ?s1" "good ?s2" "good ?s3"
    by (simp_all add: good_def stringstream_of_def)
  have e1: "extract_double E ?s0 (uninit E) = (timestamp_value E ts1, ?s1)"
    using extract_double_field [OF g(1) _ _ assms(1) w1(2), of "[]" "r1 @ rgb @ w2 @ ts2 @ w3 @ dep"]
    by (simp add: stringstream_of_def w1(1))
  have e2: "extract_string ?s1 [] = (rgb, ?s2)"
    using extract_string_token [OF g(2) _ w1(3) assms(3), of "w2 @ ts2 @ w3 @ dep"] w2(2)
    by (simp add: stringstream_of_def w2(1))
  have e3: "extract_double E ?s2 (timestamp_value E ts1) = (timestamp_value E ts2, ?s3)"
    using extract_double_field [OF g(3) _ w2(3) assms(5) w3(2), of "r3 @ dep"]
    by (simp add: stringstream_of_def w3(1))
  have e4: "extract_string ?s3 [] = (dep, ?s0\<lparr>buf := [], eofbit := True\<rparr>)"
    using extract_string_token [OF g(4) _ w3(3) assms(7), of "[]"]
    by (simp add: stringstream_of_def)
  show ?thesis
    by (simp add: parse_line_def e1 e2 e3 e4)
qed

subsection \<open>The frame loop\<close>

text \<open>
  One iteration, and the three ways the loop runs: to the end, up to a poll that returns
  the escape key, up to a colour image that is empty.
\<close>

lemma track_loop_done:
  "\<not> ni < nImages \<Longrightarrow> track_loop E vs nImages ni = ([], AllProcessed)"
  by (subst track_loop.simps) simp

lemma track_loop_step:
  assumes "same_sizes vs" "int i < nImages" "i < length (vstrImageFilenamesRGB vs)"
  shows "track_loop E vs nImages (int i) =
     (if imread E (vstrImageFilenamesRGB vs ! i) = None then (load_failure_events vs i, LoadFailed)
      else if esc_pressed E i then (frame_events E vs i, EscPressed)
      else emit (frame_events E vs i) (track_loop E vs nImages (int (Suc i))))"
proof -
  have eq: "int (Suc i) = int i + 1" by simp
  show ?thesis
    unfolding eq using assms
    by (subst track_loop.simps)
      (simp add: same_sizes_def Let_def frame_events_def load_failure_events_def esc_pressed_def
        del: of_nat_Suc)
qed

lemma track_loop_all:
  assumes "same_sizes vs" "nImages \<le> int (length (vstrImageFilenamesRGB vs))"
    and "\<forall>j. i \<le> j \<and> int j < nImages \<longrightarrow>
           imread E (vstrImageFilenamesRGB vs ! j) \<noteq> None \<and> \<not> esc_pressed E j"
  shows "track_loop E vs nImages (int i) =
           (concat (map (frame_events E vs) [i..<nat nImages]), AllProcessed)"
  using assms(3)
proof (induction "nat nImages - i" arbitrary: i)
  case 0
  then have "\<not> int i < nImages" by simp
  moreover have "[i..<nat nImages] = []" using 0 by simp
  ultimately show ?case by (simp add: track_loop_done)
next
  case (Suc d)
  then have lt: "int i < nImages" by linarith
  then have r: "i < length (vstrImageFilenamesRGB vs)" using assms(2) by linarith
  have ok: "imread E (vstrImageFilenamesRGB vs ! i) \<noteq> None" "\<not> esc_pressed E i"
    using Suc.prems lt by auto
  have ih: "track_loop E vs nImages (int (Suc i)) =
              (concat (map (frame_events E vs) [Suc i..<nat nImages]), AllProcessed)"
    using Suc.hyps(2) Suc.prems by (intro Suc.hyps(1)) auto
  have "[i..<nat nImages] = i # [Suc i..<nat nImages]"
    using lt by (simp add: upt_conv_Cons)
  then show ?case
    by (simp add: ok track_loop_step [OF assms(1) lt r] ih emit_def del: of_nat_Suc)
qed

lemma track_loop_esc:
  assumes "same_sizes vs" "nImages \<le> int (length (vstrImageFilenamesRGB vs))"
    and "int k < nImages" "i \<le> k"
    and "\<forall>j. i \<le> j \<and> j \<le> k \<longrightarrow> imread E (vstrImageFilenamesRGB vs ! j) \<noteq> None"
    and "\<forall>j. i \<le> j \<and> j < k \<longrightarrow> \<not> esc_pressed E j"
    and "esc_pressed E k"
  shows "track_loop E vs nImages (int i) =
           (concat (map (frame_events E vs) [i..<Suc k]), EscPressed)"
  using assms(4,5,6)
proof (induction "k - i" arbitrary: i)
  case 0
  then have i: "i = k" by simp
  have r: "k < length (vstrImageFilenamesRGB vs)" using assms(2,3) by linarith
  show ?case
    using 0 assms(7) by (simp add: i track_loop_step [OF assms(1,3) r])
next
  case (Suc d)
  then have lt: "i < k" by linarith
  then have lt': "int i < nImages" using assms(3) by linarith
  then have r: "i < length (vstrImageFilenamesRGB vs)" using assms(2) by linarith
  have ok: "imread E (vstrImageFilenamesRGB vs ! i) \<noteq> None" "\<not> esc_pressed E i"
    using Suc.prems lt by auto
  have ih: "track_loop E vs nImages (int (Suc i)) =
              (concat (map (frame_events E vs) [Suc i..<Suc k]), EscPressed)"
    using Suc.hyps(2) Suc.prems lt by (intro Suc.hyps(1)) auto
  have "[i..<Suc k] = i # [Suc i..<Suc k]"
    using lt by (simp add: upt_conv_Cons)
  then show ?case
    by (simp add: ok track_loop_step [OF assms(1) lt' r] ih emit_def del: of_nat_Suc upt_Suc)
qed

lemma track_loop_load_failed:
  assumes "same_sizes vs" "nImages \<le> int (length (vstrImageFilenamesRGB vs))"
    and "int k < nImages" "i \<le> k"
    and "\<forall>j. i \<le> j \<and> j < k \<longrightarrow>
           imread E (vstrImageFilenamesRGB vs ! j) \<noteq> None \<and> \<not> esc_pressed E j"
    and "imread E (vstrImageFilenamesRGB vs ! k) = None"
  shows "track_loop E vs nImages (int i) =
           (concat (map (frame_events E vs) [i..<k]) @ load_failure_events vs k, LoadFailed)"
  using assms(4,5)
proof (induction "k - i" arbitrary: i)
  case 0
  then have i: "i = k" by simp
  have r: "k < length (vstrImageFilenamesRGB vs)" using assms(2,3) by linarith
  show ?case
    using 0 assms(6) by (simp add: i track_loop_step [OF assms(1,3) r])
next
  case (Suc d)
  then have lt: "i < k" by linarith
  then have lt': "int i < nImages" using assms(3) by linarith
  then have r: "i < length (vstrImageFilenamesRGB vs)" using assms(2) by linarith
  have ok: "imread E (vstrImageFilenamesRGB vs ! i) \<noteq> None" "\<not> esc_pressed E i"
    using Suc.prems lt by auto
  have ih: "track_loop E vs nImages (int (Suc i)) =
              (concat (map (frame_events E vs) [Suc i..<k]) @ load_failure_events vs k, LoadFailed)"
    using Suc.hyps(2) Suc.prems lt by (intro Suc.hyps(1)) auto
  have "[i..<k] = i # [Suc i..<k]"
    using lt by (simp add: upt_conv_Cons)
  then show ?case
    by (simp add: ok track_loop_step [OF assms(1) lt' r] ih emit_def del: of_nat_Suc)
qed

text \<open>The conversion of the size to \<open>int\<close>.\<close>

lemma nImages_sint: "sint (word_of_nat n :: 32 word) = signed_take_bit 31 (int n)"
proof -
  have "(word_of_nat n :: 32 word) = word_of_int (int n)" by simp
  then show ?thesis by (simp only: sint_sbintrunc') simp
qed

lemma nImages_le: "sint (word_of_nat n :: 32 word) \<le> int n"
proof -
  have "- (2 ^ 31) \<le> int n" by simp
  then show ?thesis
    unfolding nImages_sint by (simp only: signed_take_bit_int_less_eq_self_iff)
qed

lemma nImages_eq: "n < 2 ^ 31 \<Longrightarrow> sint (word_of_nat n :: 32 word) = int n"
  unfolding nImages_sint by (rule signed_take_bit_int_eq_self) auto

subsection \<open>ProcessImages and main\<close>

lemma parse_line_sizes:
  "same_sizes vs \<Longrightarrow> same_sizes (parse_line E sp s vs)"
  by (simp add: parse_line_def same_sizes_def split: prod.splits)

lemma read_loop_sizes:
  "read_loop n E sp f vs = Some r \<Longrightarrow> same_sizes vs \<Longrightarrow> same_sizes r"
proof (induction n arbitrary: f vs)
  case 0
  then show ?case by simp
next
  case (Suc n)
  show ?case
  proof (cases "eof f")
    case True
    with Suc.prems show ?thesis by simp
  next
    case False
    obtain s f' where g: "getline f = (s, f')" by (cases "getline f")
    have "read_loop n E sp f' (if s \<noteq> [] then parse_line E sp s vs else vs) = Some r"
      using Suc.prems(1) False by (simp add: g)
    moreover have "same_sizes (if s \<noteq> [] then parse_line E sp s vs else vs)"
      using Suc.prems(2) by (simp add: parse_line_sizes)
    ultimately show ?thesis by (rule Suc.IH)
  qed
qed

lemma read_association_sizes:
  "read_association fuel E af sp = Some vs \<Longrightarrow> same_sizes vs"
  unfolding read_association_def Let_def
  by (erule read_loop_sizes) (simp add: same_sizes_def no_vectors_def)

lemma read_association_unopened:
  "fopen E af = None \<Longrightarrow> read_association fuel E af sp = None"
  by (simp add: read_association_def ifstream_open_def read_loop_failed)

lemma read_association_opened:
  assumes "fopen E af = Some content" "length content + 2 \<le> fuel"
  shows "read_association fuel E af sp =
           Some (foldl (\<lambda>v l. parse_line E sp l v) no_vectors (nonempty_lines content))"
  using assms by (simp add: read_association_def ifstream_open_def read_loop_lines)

lemma foldl_parse_line_length:
  "length (vstrImageFilenamesRGB (foldl (\<lambda>v l. parse_line E sp l v) vs ls)) =
     length (vstrImageFilenamesRGB vs) + length ls"
  by (induction ls arbitrary: vs) (simp_all add: parse_line_def split: prod.splits)

lemma ProcessImages_running:
  "read_association fuel E af sp = None \<Longrightarrow> ProcessImages fuel E af sp = ([Fopen af], None)"
  by (simp add: ProcessImages_def)

lemma ProcessImages_no_images:
  "read_association fuel E af sp = Some vs \<Longrightarrow> vstrImageFilenamesRGB vs = [] \<Longrightarrow>
   ProcessImages fuel E af sp =
     ([Fopen af, Cerr (endl @ ''No images found in provided path.'' @ endl)], Some NoImages)"
  by (simp add: ProcessImages_def)

lemma ProcessImages_loop:
  assumes "read_association fuel E af sp = Some vs" "vstrImageFilenamesRGB vs \<noteq> []"
  shows "ProcessImages fuel E af sp =
     (Fopen af # fst (track_loop E vs (sint (word_of_nat (length (vstrImageFilenamesRGB vs)) :: 32 word)) 0),
      Some (snd (track_loop E vs (sint (word_of_nat (length (vstrImageFilenamesRGB vs)) :: 32 word)) 0)))"
  using assms read_association_sizes [OF assms(1)]
  by (simp add: ProcessImages_def same_sizes_def Let_def split: prod.splits)

lemma worker_event_simps [simp]:
  "worker_event (Cerr m)" "worker_event (Fopen p)" "worker_event (Imread p)"
  "worker_event (TrackRGBD a b t)" "worker_event (WaitKey d)"
  "\<not> worker_event (Construct v s)" "\<not> worker_event Spawn"
  "\<not> worker_event RunViewer_call" "\<not> worker_event RunViewer_return"
  "\<not> worker_event Join" "\<not> worker_event Shutdown"
  "\<not> worker_event (SaveTrajectoryTUM p)" "\<not> worker_event (SaveKeyFrameTrajectoryTUM p)"
  by (simp_all add: worker_event_def)

lemma track_loop_worker_events:
  "list_all worker_event (fst (track_loop E vs nImages ni))"
proof (induction E vs nImages ni rule: track_loop.induct)
  case (1 E vs nImages ni)
  show ?case
    using 1 by (subst track_loop.simps) (simp add: Let_def emit_def)
qed

lemma track_loop_polls:
  "poll_follows_ingest (fst (track_loop E vs nImages ni))"
proof (induction E vs nImages ni rule: track_loop.induct)
  case (1 E vs nImages ni)
  show ?case
    using 1 by (subst track_loop.simps) (simp add: Let_def emit_def is_ingest_def is_poll_def)
qed

lemma track_loop_no_mismatch_message:
  "Cerr (endl @ ''Number of RGB and depth images do not match.'' @ endl)
     \<notin> set (fst (track_loop E vs nImages ni))"
proof (induction E vs nImages ni rule: track_loop.induct)
  case (1 E vs nImages ni)
  show ?case
    using 1 by (subst track_loop.simps) (simp add: Let_def emit_def endl_def)
qed

lemma track_loop_in_range:
  "same_sizes vs \<Longrightarrow> nImages \<le> int (length (vstrImageFilenamesRGB vs)) \<Longrightarrow> 0 \<le> ni \<Longrightarrow>
   snd (track_loop E vs nImages ni) \<noteq> OutOfRange"
proof (induction E vs nImages ni rule: track_loop.induct)
  case (1 E vs nImages ni)
  show ?case
    using 1
    by (subst track_loop.simps) (auto simp: Let_def emit_def same_sizes_def nat_less_iff)
qed

lemma main_usage:
  "length argv \<noteq> 5 \<Longrightarrow> main fuel E argv = ({[Cerr usage]}, Some 1)"
  by (simp add: main_def)

lemma main_running:
  assumes "length argv = 5" "ProcessImages fuel E (argv ! 4) (argv ! 3) = (w, None)"
  shows "main fuel E argv =
           ((\<lambda>zs. [Construct (argv ! 1) (argv ! 2), Spawn] @ zs)
              ` shuffles [RunViewer_call, RunViewer_return] w, None)"
  using assms by (simp add: main_def)

lemma main_returned:
  assumes "length argv = 5" "ProcessImages fuel E (argv ! 4) (argv ! 3) = (w, Some r)"
  shows "main fuel E argv =
           ((\<lambda>zs. [Construct (argv ! 1) (argv ! 2), Spawn] @ zs
                    @ [Join, Shutdown, SaveTrajectoryTUM ''CameraTrajectory.txt'',
                       SaveKeyFrameTrajectoryTUM ''KeyFrameTrajectory.txt''])
              ` shuffles [RunViewer_call, RunViewer_return] w, Some 0)"
  using assms by (simp add: main_def)

lemma ProcessImages_worker_events:
  "list_all worker_event (fst (ProcessImages fuel E af sp))"
  using track_loop_worker_events [of E]
  by (simp add: ProcessImages_def Let_def split: option.splits prod.splits)
    (metis fst_conv)

lemma poll_follows_ingest_other:
  "\<not> is_ingest e \<Longrightarrow> \<not> is_poll e \<Longrightarrow> poll_follows_ingest (e # es) = poll_follows_ingest es"
  by (cases es) simp_all

lemma ProcessImages_polls:
  "poll_follows_ingest (fst (ProcessImages fuel E af sp))"
  using track_loop_polls [of E]
  by (simp add: ProcessImages_def Let_def poll_follows_ingest_other is_ingest_def is_poll_def
      split: option.splits prod.splits) (metis fst_conv)

lemma ProcessImages_returned_iff:
  "snd (ProcessImages fuel E af sp) = None \<longleftrightarrow> read_association fuel E af sp = None"
  by (simp add: ProcessImages_def Let_def split: option.splits prod.splits)

subsection \<open>Further facts about the worker and about main\<close>

lemma ProcessImages_events:
  "e \<in> set (fst (ProcessImages fuel E af sp)) \<Longrightarrow> worker_event e"
  using ProcessImages_worker_events [of fuel E af sp] by (simp add: list_all_iff)

lemma main_unopened:
  assumes "length argv = 5" "fopen E (argv ! 4) = None"
  shows "main fuel E argv =
           ((\<lambda>zs. [Construct (argv ! 1) (argv ! 2), Spawn] @ zs)
              ` shuffles [RunViewer_call, RunViewer_return] [Fopen (argv ! 4)], None)"
  using assms(1)
  by (rule main_running) (simp add: ProcessImages_running read_association_unopened assms(2))

lemma main_exit_code:
  "length argv \<noteq> 5 \<Longrightarrow> main fuel E argv = ({[Cerr usage]}, Some 1)"
  "length argv = 5 \<Longrightarrow> fopen E (argv ! 4) = Some content \<Longrightarrow> length content + 2 \<le> fuel \<Longrightarrow>
     snd (main fuel E argv) = Some 0"
  "length argv = 5 \<Longrightarrow> fopen E (argv ! 4) = None \<Longrightarrow> snd (main fuel E argv) = None"
proof -
  show "length argv \<noteq> 5 \<Longrightarrow> main fuel E argv = ({[Cerr usage]}, Some 1)"
    by (rule main_usage)
next
  assume a: "length argv = 5" "fopen E (argv ! 4) = Some content" "length content + 2 \<le> fuel"
  have "read_association fuel E (argv ! 4) (argv ! 3) \<noteq> None"
    using read_association_opened [OF a(2,3)] by simp
  then have "snd (ProcessImages fuel E (argv ! 4) (argv ! 3)) \<noteq> None"
    by (simp add: ProcessImages_returned_iff)
  then obtain w r where "ProcessImages fuel E (argv ! 4) (argv ! 3) = (w, Some r)"
    by (cases "ProcessImages fuel E (argv ! 4) (argv ! 3)") auto
  from main_returned [OF a(1) this] show "snd (main fuel E argv) = Some 0" by simp
next
  assume "length argv = 5" "fopen E (argv ! 4) = None"
  then show "snd (main fuel E argv) = None" by (simp add: main_unopened)
qed

lemma filter_ingest_frames:
  "filter is_ingest (concat (map (frame_events E vs) xs)) =
     map (\<lambda>i. TrackRGBD (imread E (vstrImageFilenamesRGB vs ! i))
                 (imread E (vstrImageFilenamesD vs ! i)) (vTimestamps vs ! i)) xs"
  by (induction xs) (simp_all add: frame_events_def is_ingest_def)

lemma track_loop_no_mismatch:
  "snd (track_loop E vs nImages ni) \<noteq> CountMismatch"
proof (induction E vs nImages ni rule: track_loop.induct)
  case (1 E vs nImages ni)
  show ?case
    using 1 by (subst track_loop.simps) (simp add: Let_def emit_def)
qed

lemma final_calls_once:
  assumes "tr = pre @ final_calls"
    and "list_all (\<lambda>e. e \<noteq> Join \<and> e \<noteq> Shutdown \<and> \<not> is_export e) pre"
  shows "count_list tr Join = 1 \<and> count_list tr Shutdown = 1
         \<and> filter is_export tr =
             [SaveTrajectoryTUM ''CameraTrajectory.txt'',
              SaveKeyFrameTrajectoryTUM ''KeyFrameTrajectory.txt'']"
proof -
  have "Join \<notin> set pre" "Shutdown \<notin> set pre" "filter is_export pre = []"
    using assms(2) by (auto simp: list_all_iff filter_empty_conv)
  then show ?thesis
    by (simp add: assms(1) final_calls_def is_export_def count_list_0_iff)
qed

section \<open>The claims\<close>

subsection \<open>C1: a manifest without frames\<close>

text \<open>
  Claim C1, as amended. When the association file opens and none of its lines is
  non-empty (it yields zero frames), this is found out inside the worker thread, which
  has been started all the same. Given enough fuel for the reading loop to end, every run
  consists of the construction of the system and the start of the worker, then the viewer
  interleaved with the worker, which opens the file, reports "No images found in provided
  path." and returns without a call of the tracker, and then the join, the shutdown and
  the two exports. The run is not aborted: the exit code is 0.
\<close>

theorem zero_frames_detected_in_worker:
  assumes "length argv = 5" "fopen E (argv ! 4) = Some content"
    and "nonempty_lines content = []" "length content + 2 \<le> fuel"
  shows "main fuel E argv =
           ((\<lambda>zs. [Construct (argv ! 1) (argv ! 2), Spawn] @ zs @ final_calls)
              ` shuffles [RunViewer_call, RunViewer_return]
                  [Fopen (argv ! 4), Cerr (endl @ ''No images found in provided path.'' @ endl)],
            Some 0)"
proof -
  have "read_association fuel E (argv ! 4) (argv ! 3) = Some no_vectors"
    using read_association_opened [OF assms(2,4)] assms(3) by simp
  then have "ProcessImages fuel E (argv ! 4) (argv ! 3) =
      ([Fopen (argv ! 4), Cerr (endl @ ''No images found in provided path.'' @ endl)], Some NoImages)"
    by (rule ProcessImages_no_images) (simp add: no_vectors_def)
  from main_returned [OF assms(1) this] show ?thesis
    by (simp add: final_calls_def)
qed

text \<open>
  The theorem at an empty association file: the six interleavings of the viewer with the
  two events of the worker.
\<close>

theorem zero_frames_detected_in_worker_witness:
  "main 2 (example_env [(''assoc.txt'', [])] [] []) (example_argv ''assoc.txt'') =
     ({[Construct ''voc'' ''settings'', Spawn, RunViewer_call, RunViewer_return,
        Fopen ''assoc.txt'', Cerr (endl @ ''No images found in provided path.'' @ endl)] @ final_calls,
       [Construct ''voc'' ''settings'', Spawn, RunViewer_call, Fopen ''assoc.txt'',
        RunViewer_return, Cerr (endl @ ''No images found in provided path.'' @ endl)] @ final_calls,
       [Construct ''voc'' ''settings'', Spawn, RunViewer_call, Fopen ''assoc.txt'',
        Cerr (endl @ ''No images found in provided path.'' @ endl), RunViewer_return] @ final_calls,
       [Construct ''voc'' ''settings'', Spawn, Fopen ''assoc.txt'', RunViewer_call,
        RunViewer_return, Cerr (endl @ ''No images found in provided path.'' @ endl)] @ final_calls,
       [Construct ''voc'' ''settings'', Spawn, Fopen ''assoc.txt'', RunViewer_call,
        Cerr (endl @ ''No images found in provided path.'' @ endl), RunViewer_return] @ final_calls,
       [Construct ''voc'' ''settings'', Spawn, Fopen ''assoc.txt'',
        Cerr (endl @ ''No images found in provided path.'' @ endl), RunViewer_call,
        RunViewer_return] @ final_calls},
      Some 0)"
proof -
  let ?E = "example_env [(''assoc.txt'', [])] [] [] :: (nat, string) env"
  have h1: "length (example_argv ''assoc.txt'') = 5" by (simp add: example_argv_def)
  have h2: "fopen ?E (example_argv ''assoc.txt'' ! 4) = Some []"
    by (simp add: example_env_def example_argv_def)
  have h3: "nonempty_lines [] = []" by code_simp
  have h4: "length ([] :: string) + 2 \<le> 2" by simp
  from zero_frames_detected_in_worker [OF h1 h2 h3 h4]
  show ?thesis by (simp add: example_argv_def insert_commute)
qed

text \<open>
  Claim C1 as it was stated fails on the empty association file: the manifest yields
  zero frames, and yet every run starts the worker thread (\<open>Spawn\<close>) before the file is
  even opened, goes on to the shutdown and the exports, and exits with code 0.
\<close>

theorem zero_frames_worker_spawned_counterexample:
  "read_association 2 (example_env [(''assoc.txt'', [])] [] []) ''assoc.txt'' ''seq'' = Some no_vectors
   \<and> main 2 (example_env [(''assoc.txt'', [])] [] []) (example_argv ''assoc.txt'') =
     ((\<lambda>zs. [Construct ''voc'' ''settings'', Spawn] @ zs @ final_calls)
        ` shuffles [RunViewer_call, RunViewer_return]
            [Fopen ''assoc.txt'', Cerr (endl @ ''No images found in provided path.'' @ endl)],
      Some 0)"
  by code_simp

subsection \<open>C2: shutdown and export after the join\<close>

text \<open>
  Claim C2, as amended. In every run with four arguments whose worker thread returns
  (the process exits), the event sequence ends with the return of the join, the shutdown
  and the two trajectory exports, in this order; before them there is no join, no
  shutdown and no export, so each of them happens exactly once; and every call of the
  tracker lies before the join, so none is concurrent with the shutdown or follows it.
  The order rests on the meaning of \<open>join\<close>, which returns only when the worker has
  returned: the definition of \<open>main\<close> places the events of the worker before the return
  of the join.
\<close>

theorem shutdown_once_after_join:
  assumes "length argv = 5" "snd (main fuel E argv) \<noteq> None" "tr \<in> fst (main fuel E argv)"
  shows "(\<exists>pre. tr = pre @ final_calls
            \<and> list_all (\<lambda>e. e \<noteq> Join \<and> e \<noteq> Shutdown \<and> \<not> is_export e) pre
            \<and> filter is_ingest tr = filter is_ingest pre)
         \<and> count_list tr Join = 1
         \<and> count_list tr Shutdown = 1
         \<and> filter is_export tr =
             [SaveTrajectoryTUM ''CameraTrajectory.txt'',
              SaveKeyFrameTrajectoryTUM ''KeyFrameTrajectory.txt'']"
proof -
  obtain w r where p: "ProcessImages fuel E (argv ! 4) (argv ! 3) = (w, r)"
    by (cases "ProcessImages fuel E (argv ! 4) (argv ! 3)")
  have "r \<noteq> None"
    using assms(2) main_running [OF assms(1), of fuel E w] p by (cases r) auto
  then obtain r' where r: "r = Some r'" by auto
  from assms(3) main_returned [OF assms(1) p [unfolded r]]
  obtain zs where zs: "zs \<in> shuffles [RunViewer_call, RunViewer_return] w"
    and tr: "tr = [Construct (argv ! 1) (argv ! 2), Spawn] @ zs @ final_calls"
    by (auto simp: final_calls_def)
  let ?pre = "[Construct (argv ! 1) (argv ! 2), Spawn] @ zs"
  have w: "\<And>e. e \<in> set w \<Longrightarrow> worker_event e"
    using ProcessImages_events [of _ fuel E "argv ! 4" "argv ! 3"] by (simp add: p)
  have "set zs = set [RunViewer_call, RunViewer_return] \<union> set w"
    using zs by (rule set_shuffles)
  moreover have "e \<noteq> Join \<and> e \<noteq> Shutdown \<and> \<not> is_export e"
    if "worker_event e" for e :: "('a, 'b) event"
    using that by (cases e) (simp_all add: is_export_def)
  ultimately have "\<And>e. e \<in> set zs \<Longrightarrow> e \<noteq> Join \<and> e \<noteq> Shutdown \<and> \<not> is_export e"
    using w by (auto simp: is_export_def)
  then have pre: "list_all (\<lambda>e. e \<noteq> Join \<and> e \<noteq> Shutdown \<and> \<not> is_export e) ?pre"
    by (auto simp: list_all_iff is_export_def)
  have split: "tr = ?pre @ final_calls"
    by (simp add: tr)
  have ing: "filter is_ingest tr = filter is_ingest ?pre"
    by (simp add: tr final_calls_def is_ingest_def)
  from split pre ing have "\<exists>pre. tr = pre @ final_calls
      \<and> list_all (\<lambda>e. e \<noteq> Join \<and> e \<noteq> Shutdown \<and> \<not> is_export e) pre
      \<and> filter is_ingest tr = filter is_ingest pre"
    by blast
  with final_calls_once [OF split pre] show ?thesis
    by blast
qed

text \<open>
  The theorem at \<open>one_frame_run\<close>, a run over a manifest of one frame in which the
  viewer is entered before the worker opens the file and left after the worker has
  finished.
\<close>

theorem shutdown_once_after_join_witness:
  "(\<exists>pre. one_frame_run = pre @ final_calls
       \<and> list_all (\<lambda>e. e \<noteq> Join \<and> e \<noteq> Shutdown \<and> \<not> is_export e) pre
       \<and> filter is_ingest one_frame_run = filter is_ingest pre)
   \<and> count_list one_frame_run Join = 1
   \<and> count_list one_frame_run Shutdown = 1
   \<and> filter is_export one_frame_run =
       [SaveTrajectoryTUM ''CameraTrajectory.txt'',
        SaveKeyFrameTrajectoryTUM ''KeyFrameTrajectory.txt'']"
proof -
  have h1: "length (example_argv ''assoc.txt'') = 5"
    by (simp add: example_argv_def)
  have h2: "snd (main 50 one_frame_env (example_argv ''assoc.txt'')) \<noteq> None"
    by code_simp
  have h3: "one_frame_run \<in> fst (main 50 one_frame_env (example_argv ''assoc.txt''))"
    by code_simp
  from shutdown_once_after_join [OF h1 h2 h3] show ?thesis .
qed

text \<open>
  Claim C2 as it was stated speaks of every run. A run with a wrong number of arguments
  prints the usage message and exits with code 1: the shutdown and the exports are not
  invoked at all.
\<close>

theorem no_shutdown_on_usage_error_counterexample:
  "main 0 (example_env [] [] []) [''./rgbd_tum''] = ({[Cerr usage]}, Some 1)
   \<and> count_list [Cerr usage :: (nat, string) event] Shutdown = 0"
  by (simp add: main_def)

subsection \<open>C3: an image that does not decode\<close>

text \<open>
  Claim C3 at a manifest of one frame whose colour image decodes and whose depth image
  does not: the loop tests only \<open>imRGB.empty()\<close>, so the tracker is called with the
  empty depth matrix and the loop runs to its end.
\<close>

theorem depth_decode_failure_still_ingested:
  "ProcessImages 50
     (example_env [(''assoc.txt'', ''1.0 rgb/1.png 1.0 depth/1.png'' @ endl)]
        [(''seq/rgb/1.png'', 1)] [])
     ''assoc.txt'' ''seq'' =
     ([Fopen ''assoc.txt'', Imread ''seq/rgb/1.png'', Imread ''seq/depth/1.png'',
       TrackRGBD (Some 1) None ''1.0'', WaitKey 1], Some AllProcessed)"
  by code_simp

text \<open>
  For the colour image the loop does what the claim says: when the colour image of
  frame \<open>k\<close> is the first that does not decode, and no poll before it returned the
  escape key, the frames before \<open>k\<close> have been ingested and the worker ends with the
  two reads of frame \<open>k\<close> and the message, without a call of the tracker for frame
  \<open>k\<close> or a later one.
\<close>

lemma colour_load_failure_stops_ingestion:
  assumes "read_association fuel E af sp = Some vs"
    and "k < length (vstrImageFilenamesRGB vs)"
    and "length (vstrImageFilenamesRGB vs) < 2 ^ 31"
    and "list_all (\<lambda>p. imread E p \<noteq> None) (take k (vstrImageFilenamesRGB vs))"
    and "list_all (\<lambda>i. \<not> esc_pressed E i) [0..<k]"
    and "imread E (vstrImageFilenamesRGB vs ! k) = None"
  shows "ProcessImages fuel E af sp =
           (Fopen af # concat (map (frame_events E vs) [0..<k]) @ load_failure_events vs k,
            Some LoadFailed)"
proof -
  let ?n = "length (vstrImageFilenamesRGB vs)"
  have n: "sint (word_of_nat ?n :: 32 word) = int ?n"
    using assms(3) by (rule nImages_eq)
  have s: "same_sizes vs"
    using assms(1) by (rule read_association_sizes)
  have ne: "vstrImageFilenamesRGB vs \<noteq> []"
    using assms(2) by auto
  have d: "\<forall>j. 0 \<le> j \<and> j < k \<longrightarrow>
             imread E (vstrImageFilenamesRGB vs ! j) \<noteq> None \<and> \<not> esc_pressed E j"
    using assms(2,4,5) by (auto simp: list_all_length)
  have "track_loop E vs (int ?n) (int 0) =
          (concat (map (frame_events E vs) [0..<k]) @ load_failure_events vs k, LoadFailed)"
    using s _ _ _ d assms(6) by (rule track_loop_load_failed) (use assms(2) in simp_all)
  then show ?thesis
    by (simp add: ProcessImages_loop [OF assms(1) ne] n)
qed

subsection \<open>C4: the timestamp that is stored\<close>

text \<open>
  Claim C4, as amended. On a line made of a timestamp field, a colour path token, a
  second timestamp field and a depth path token, separated by white space, the loader
  appends the two paths, each prefixed with the sequence directory and a slash, and the
  value of the second timestamp field, the one before the depth path. Both fields are
  read into the same variable, so the value of the first field is overwritten and is not
  stored.
\<close>

theorem second_timestamp_is_stored:
  assumes "timestamp_field E ts1" "blanks w1" "path_token rgb" "blanks w2"
    and "timestamp_field E ts2" "blanks w3" "path_token dep"
  shows "parse_line E sp (ts1 @ w1 @ rgb @ w2 @ ts2 @ w3 @ dep) vs =
           \<lparr>vstrImageFilenamesRGB = vstrImageFilenamesRGB vs @ [sp @ ''/'' @ rgb],
            vstrImageFilenamesD = vstrImageFilenamesD vs @ [sp @ ''/'' @ dep],
            vTimestamps = vTimestamps vs @ [timestamp_value E ts2]\<rparr>"
  using assms by (rule parse_line_fields)

text \<open>
  The theorem at the line \<open>1.0 rgb/1.png 2.0 depth/1.png\<close>.
\<close>

theorem second_timestamp_is_stored_witness:
  "parse_line (example_env [] [] []) ''/seq'' ''1.0 rgb/1.png 2.0 depth/1.png'' no_vectors =
     \<lparr>vstrImageFilenamesRGB = [''/seq/rgb/1.png''],
      vstrImageFilenamesD = [''/seq/depth/1.png''],
      vTimestamps = [''2.0'']\<rparr>"
proof -
  let ?E = "example_env [] [] [] :: (nat, string) env"
  have t1: "timestamp_field ?E ''1.0''" and t2: "timestamp_field ?E ''2.0''"
    by code_simp+
  have b: "blanks '' ''" by code_simp
  have p1: "path_token ''rgb/1.png''" and p2: "path_token ''depth/1.png''"
    by code_simp+
  have v: "timestamp_value ?E ''2.0'' = ''2.0''" by code_simp
  from second_timestamp_is_stored [OF t1 b p1 b t2 b p2, of "''/seq''" no_vectors]
  show ?thesis by (simp add: v no_vectors_def)
qed

text \<open>
  Claim C4 as it was stated fails on the same line: the stored timestamp is the value of
  the field \<open>2.0\<close>, which is not the value of the first field \<open>1.0\<close>.
\<close>

theorem first_timestamp_not_stored_counterexample:
  "vTimestamps (parse_line (example_env [] [] []) ''/seq'' ''1.0 rgb/1.png 2.0 depth/1.png'' no_vectors)
     = [timestamp_value (example_env [] [] []) ''2.0'']
   \<and> timestamp_value (example_env [] [] []) ''2.0'' \<noteq> timestamp_value (example_env [] [] []) ''1.0''"
  by code_simp

subsection \<open>C5: lines with too few tokens\<close>

text \<open>
  Claim C5, as amended. No non-empty line is skipped, however few tokens it has: when
  the association file opens, the reading loop ends (given fuel above the length of the
  file) and yields exactly one element of each of the three vectors for every non-empty
  line of the file. No error is raised.
\<close>

theorem every_nonempty_line_gives_a_descriptor:
  assumes "fopen E af = Some content" "length content + 2 \<le> fuel"
  shows "\<exists>vs. read_association fuel E af sp = Some vs
           \<and> length (vstrImageFilenamesRGB vs) = length (nonempty_lines content)
           \<and> length (vstrImageFilenamesD vs) = length (nonempty_lines content)
           \<and> length (vTimestamps vs) = length (nonempty_lines content)"
proof -
  let ?vs = "foldl (\<lambda>v l. parse_line E sp l v) no_vectors (nonempty_lines content)"
  have r: "read_association fuel E af sp = Some ?vs"
    using assms by (rule read_association_opened)
  have n: "length (vstrImageFilenamesRGB ?vs) = length (nonempty_lines content)"
    by (simp add: foldl_parse_line_length no_vectors_def)
  have "same_sizes ?vs"
    using r by (rule read_association_sizes)
  with r n show ?thesis
    by (simp add: same_sizes_def)
qed

text \<open>
  The theorem at a file of two lines, the second of which has only two tokens.
\<close>

theorem every_nonempty_line_gives_a_descriptor_witness:
  "\<exists>vs. read_association 50 (example_env [(''assoc.txt'', ''1.0 rgb/1.png 1.0 depth/1.png'' @ endl @ ''2.0 rgb/2.png'' @ endl)] [] []) ''assoc.txt'' ''/seq'' = Some vs
     \<and> length (vstrImageFilenamesRGB vs) = 2
     \<and> length (vstrImageFilenamesD vs) = 2
     \<and> length (vTimestamps vs) = 2"
proof -
  let ?c = "''1.0 rgb/1.png 1.0 depth/1.png'' @ endl @ ''2.0 rgb/2.png'' @ endl"
  let ?E = "example_env [(''assoc.txt'', ?c)] [] [] :: (nat, string) env"
  have h1: "fopen ?E ''assoc.txt'' = Some ?c" by (simp add: example_env_def)
  have h2: "length ?c + 2 \<le> 50" by (simp add: endl_def)
  have n: "length (nonempty_lines ?c) = 2" by code_simp
  from every_nonempty_line_gives_a_descriptor [OF h1 h2, of "''/seq''"]
  show ?thesis by (simp only: n)
qed

text \<open>
  Claim C5 as it was stated fails on that file: the line \<open>2.0 rgb/2.png\<close> is not
  skipped. It yields a descriptor whose depth path is the sequence directory followed by
  a slash, so two lines give two descriptors, not one.
\<close>

theorem short_line_not_skipped_counterexample:
  "read_association 50 (example_env [(''assoc.txt'', ''1.0 rgb/1.png 1.0 depth/1.png'' @ endl @ ''2.0 rgb/2.png'' @ endl)] [] [])
     ''assoc.txt'' ''/seq'' =
     Some \<lparr>vstrImageFilenamesRGB = [''/seq/rgb/1.png'', ''/seq/rgb/2.png''],
           vstrImageFilenamesD = [''/seq/depth/1.png'', ''/seq/''],
           vTimestamps = [''1.0'', ''2.0'']\<rparr>"
  by code_simp

subsection \<open>C6: an association file that cannot be opened\<close>

text \<open>
  Claim C6, as amended. When the association file cannot be opened, this is met inside
  the worker thread and not before a thread is started: in every run with four arguments,
  however long it is observed, the first two events are the construction of the system
  and the start of the worker, the attempt to open the file comes after them, and no
  frame is ingested.
\<close>

theorem unopened_manifest_met_in_worker:
  assumes "length argv = 5" "fopen E (argv ! 4) = None" "tr \<in> fst (main fuel E argv)"
  shows "take 2 tr = [Construct (argv ! 1) (argv ! 2), Spawn]
           \<and> Fopen (argv ! 4) \<in> set (drop 2 tr)
           \<and> filter is_ingest tr = []"
proof -
  from assms(3) obtain zs where zs: "zs \<in> shuffles [RunViewer_call, RunViewer_return] [Fopen (argv ! 4)]"
    and tr: "tr = [Construct (argv ! 1) (argv ! 2), Spawn] @ zs"
    by (auto simp: main_unopened [OF assms(1,2)])
  have s: "set zs = set [RunViewer_call, RunViewer_return] \<union> set [Fopen (argv ! 4)]"
    using zs by (rule set_shuffles)
  then have "filter is_ingest zs = []"
    by (auto simp: filter_empty_conv is_ingest_def)
  with s show ?thesis
    by (simp add: tr is_ingest_def)
qed

text \<open>
  The theorem at a run in which the file is missing and the worker tries to open it
  while the viewer runs.
\<close>

theorem unopened_manifest_met_in_worker_witness:
  "take 2 [Construct ''voc'' ''settings'', Spawn, RunViewer_call, Fopen ''missing.txt'',
           RunViewer_return :: (nat, string) event]
     = [Construct ''voc'' ''settings'', Spawn]
   \<and> Fopen ''missing.txt'' \<in> set (drop 2 [Construct ''voc'' ''settings'', Spawn, RunViewer_call,
           Fopen ''missing.txt'', RunViewer_return :: (nat, string) event])
   \<and> filter is_ingest [Construct ''voc'' ''settings'', Spawn, RunViewer_call, Fopen ''missing.txt'',
           RunViewer_return :: (nat, string) event] = []"
proof -
  let ?E = "example_env [] [] [] :: (nat, string) env"
  let ?tr = "[Construct ''voc'' ''settings'', Spawn, RunViewer_call, Fopen ''missing.txt'',
           RunViewer_return] :: (nat, string) event list"
  have h1: "length (example_argv ''missing.txt'') = 5" by (simp add: example_argv_def)
  have h2: "fopen ?E (example_argv ''missing.txt'' ! 4) = None"
    by (simp add: example_env_def example_argv_def)
  have h3: "?tr \<in> fst (main 100 ?E (example_argv ''missing.txt''))" by code_simp
  from unopened_manifest_met_in_worker [OF h1 h2 h3] show ?thesis
    by (simp add: example_argv_def)
qed

text \<open>
  Claim C6 as it was stated fails when the file is missing: after a hundred iterations
  of the reading loop the worker thread has been started in every run, nothing has been
  reported on \<open>cerr\<close> and the process has not exited.
\<close>

theorem unopened_manifest_worker_spawned_counterexample:
  "main 100 (example_env [] [] []) (example_argv ''missing.txt'') =
   ({[Construct ''voc'' ''settings'', Spawn, RunViewer_call, RunViewer_return, Fopen ''missing.txt''],
     [Construct ''voc'' ''settings'', Spawn, RunViewer_call, Fopen ''missing.txt'', RunViewer_return],
     [Construct ''voc'' ''settings'', Spawn, Fopen ''missing.txt'', RunViewer_call, RunViewer_return]},
    None)"
  by code_simp

subsection \<open>C7: every frame is ingested once, in order\<close>

text \<open>
  Claim C7. Let the reading loop have produced the vectors \<open>vs\<close>, fewer than \<open>2^31\<close>
  of them (\<open>nImages\<close> is a 32-bit \<open>int\<close>), let every colour and every depth image
  decode and let no poll return the escape key. Then the calls of the tracker that
  \<open>ProcessImages\<close> makes are, in this order, one call for every index of the vectors,
  with the two decoded images and the timestamp of that index: as many calls as there
  are descriptors, each descriptor once, in the order of the manifest. The calls are
  events of one sequential thread, so no two of them overlap. The worker returns after
  the last frame (or with the message about no images when there is no descriptor).
\<close>

theorem every_frame_ingested_once_in_order:
  assumes "read_association fuel E af sp = Some vs"
    and "length (vstrImageFilenamesRGB vs) < 2 ^ 31"
    and "list_all (\<lambda>p. imread E p \<noteq> None) (vstrImageFilenamesRGB vs)"
    and "list_all (\<lambda>p. imread E p \<noteq> None) (vstrImageFilenamesD vs)"
    and "list_all (\<lambda>i. \<not> esc_pressed E i) [0..<length (vstrImageFilenamesRGB vs)]"
  shows "filter is_ingest (fst (ProcessImages fuel E af sp)) =
           map (\<lambda>i. TrackRGBD (imread E (vstrImageFilenamesRGB vs ! i))
                       (imread E (vstrImageFilenamesD vs ! i)) (vTimestamps vs ! i))
             [0..<length (vstrImageFilenamesRGB vs)]
         \<and> length (filter is_ingest (fst (ProcessImages fuel E af sp))) =
             length (vstrImageFilenamesRGB vs)
         \<and> snd (ProcessImages fuel E af sp) =
             Some (if vstrImageFilenamesRGB vs = [] then NoImages else AllProcessed)"
proof (cases "vstrImageFilenamesRGB vs = []")
  case True
  then show ?thesis
    by (simp add: ProcessImages_no_images [OF assms(1) True] is_ingest_def)
next
  case False
  let ?n = "length (vstrImageFilenamesRGB vs)"
  have n: "sint (word_of_nat ?n :: 32 word) = int ?n"
    using assms(2) by (rule nImages_eq)
  have s: "same_sizes vs"
    using assms(1) by (rule read_association_sizes)
  have ok: "\<forall>j. 0 \<le> j \<and> int j < int ?n \<longrightarrow>
              imread E (vstrImageFilenamesRGB vs ! j) \<noteq> None \<and> \<not> esc_pressed E j"
    using assms(3,5) by (simp add: list_all_length list_all_iff)
  have "track_loop E vs (int ?n) (int 0) =
          (concat (map (frame_events E vs) [0..<nat (int ?n)]), AllProcessed)"
    using s _ ok by (rule track_loop_all) simp
  then have "ProcessImages fuel E af sp =
          (Fopen af # concat (map (frame_events E vs) [0..<?n]), Some AllProcessed)"
    by (simp add: ProcessImages_loop [OF assms(1) False] n)
  then show ?thesis
    using False by (simp add: filter_ingest_frames is_ingest_def)
qed

text \<open>
  The theorem at a manifest of two frames.
\<close>

theorem every_frame_ingested_once_in_order_witness:
  "filter is_ingest (fst (ProcessImages 100 (two_frame_env []) ''assoc.txt'' ''seq'')) =
     [TrackRGBD (Some 1) (Some 2) ''1.0'', TrackRGBD (Some 3) (Some 4) ''2.0'']
   \<and> snd (ProcessImages 100 (two_frame_env []) ''assoc.txt'' ''seq'') = Some AllProcessed"
proof -
  have h1: "read_association 100 (two_frame_env []) ''assoc.txt'' ''seq'' = Some two_frame_vectors"
    by code_simp
  have h2: "length (vstrImageFilenamesRGB two_frame_vectors) < 2 ^ 31"
    by (simp add: two_frame_vectors_def)
  have h3: "list_all (\<lambda>p. imread (two_frame_env []) p \<noteq> None) (vstrImageFilenamesRGB two_frame_vectors)"
    and h4: "list_all (\<lambda>p. imread (two_frame_env []) p \<noteq> None) (vstrImageFilenamesD two_frame_vectors)"
    by (simp_all add: two_frame_vectors_def two_frame_env_def example_env_def)
  have h5: "list_all (\<lambda>i. \<not> esc_pressed (two_frame_env []) i)
              [0..<length (vstrImageFilenamesRGB two_frame_vectors)]"
    by (simp add: two_frame_vectors_def two_frame_env_def example_env_def esc_pressed_def)
  have v: "map (\<lambda>i. TrackRGBD (imread (two_frame_env []) (vstrImageFilenamesRGB two_frame_vectors ! i))
                       (imread (two_frame_env []) (vstrImageFilenamesD two_frame_vectors ! i))
                       (vTimestamps two_frame_vectors ! i))
             [0..<length (vstrImageFilenamesRGB two_frame_vectors)] =
           [TrackRGBD (Some 1) (Some 2) ''1.0'', TrackRGBD (Some 3) (Some 4) ''2.0'']"
    by (simp add: two_frame_vectors_def two_frame_env_def example_env_def)
  have e: "vstrImageFilenamesRGB two_frame_vectors \<noteq> []"
    by (simp add: two_frame_vectors_def)
  from every_frame_ingested_once_in_order [OF h1 h2 h3 h4 h5] show ?thesis
    by (simp only: v e if_False simp_thms)
qed

subsection \<open>C8: the poll of the escape key\<close>

text \<open>
  Claim C8. In the events of \<open>ProcessImages\<close> every call of the tracker is followed at
  once by one poll of the keyboard, and there is no other poll. If the poll after the
  frame of index \<open>k\<close> is the first that returns the escape key, the frames up to
  \<open>k\<close> having decoded colour images (and the vectors fewer than \<open>2^31\<close> elements),
  then the events of the worker are the opening of the file and the complete iterations
  for the indices \<open>0\<close> to \<open>k\<close>, and nothing else: no image of a later frame is read
  and no later frame is ingested.
\<close>

theorem poll_after_each_ingest_and_esc_stops:
  "poll_follows_ingest (fst (ProcessImages fuel E af sp))
   \<and> (read_association fuel E af sp = Some vs \<longrightarrow>
        k < length (vstrImageFilenamesRGB vs) \<longrightarrow>
        length (vstrImageFilenamesRGB vs) < 2 ^ 31 \<longrightarrow>
        list_all (\<lambda>p. imread E p \<noteq> None) (take (Suc k) (vstrImageFilenamesRGB vs)) \<longrightarrow>
        list_all (\<lambda>i. \<not> esc_pressed E i) [0..<k] \<longrightarrow>
        esc_pressed E k \<longrightarrow>
        ProcessImages fuel E af sp =
          (Fopen af # concat (map (frame_events E vs) [0..<Suc k]), Some EscPressed))"
proof (intro conjI impI)
  show "poll_follows_ingest (fst (ProcessImages fuel E af sp))"
    by (rule ProcessImages_polls)
next
  let ?n = "length (vstrImageFilenamesRGB vs)"
  assume r: "read_association fuel E af sp = Some vs"
    and k: "k < ?n" and n31: "?n < 2 ^ 31"
    and dec: "list_all (\<lambda>p. imread E p \<noteq> None) (take (Suc k) (vstrImageFilenamesRGB vs))"
    and noesc: "list_all (\<lambda>i. \<not> esc_pressed E i) [0..<k]"
    and esc: "esc_pressed E k"
  have n: "sint (word_of_nat ?n :: 32 word) = int ?n"
    using n31 by (rule nImages_eq)
  have s: "same_sizes vs"
    using r by (rule read_association_sizes)
  have ne: "vstrImageFilenamesRGB vs \<noteq> []"
    using k by auto
  have d: "\<forall>j. 0 \<le> j \<and> j \<le> k \<longrightarrow> imread E (vstrImageFilenamesRGB vs ! j) \<noteq> None"
    using dec k by (auto simp: list_all_length)
  have q: "\<forall>j. 0 \<le> j \<and> j < k \<longrightarrow> \<not> esc_pressed E j"
    using noesc by (simp add: list_all_iff)
  have "track_loop E vs (int ?n) (int 0) =
          (concat (map (frame_events E vs) [0..<Suc k]), EscPressed)"
    using s _ _ _ d q esc by (rule track_loop_esc) (use k in simp_all)
  then show "ProcessImages fuel E af sp =
          (Fopen af # concat (map (frame_events E vs) [0..<Suc k]), Some EscPressed)"
    by (simp add: ProcessImages_loop [OF r ne] n)
qed

text \<open>
  The theorem at a manifest of two frames where the first poll returns 27.
\<close>

theorem poll_after_each_ingest_and_esc_stops_witness:
  "poll_follows_ingest (fst (ProcessImages 100 (two_frame_env [27]) ''assoc.txt'' ''seq''))
   \<and> ProcessImages 100 (two_frame_env [27]) ''assoc.txt'' ''seq'' =
       ([Fopen ''assoc.txt'', Imread ''seq/rgb/1.png'', Imread ''seq/depth/1.png'',
         TrackRGBD (Some 1) (Some 2) ''1.0'', WaitKey 1], Some EscPressed)"
proof -
  have h1: "read_association 100 (two_frame_env [27]) ''assoc.txt'' ''seq'' = Some two_frame_vectors"
    by code_simp
  have h2: "0 < length (vstrImageFilenamesRGB two_frame_vectors)"
    and h3: "length (vstrImageFilenamesRGB two_frame_vectors) < 2 ^ 31"
    by (simp_all add: two_frame_vectors_def)
  have h4: "list_all (\<lambda>p. imread (two_frame_env [27]) p \<noteq> None)
              (take (Suc 0) (vstrImageFilenamesRGB two_frame_vectors))"
    by (simp add: two_frame_vectors_def two_frame_env_def example_env_def)
  have h5: "list_all (\<lambda>i. \<not> esc_pressed (two_frame_env [27]) i) [0..<0]"
    by simp
  have h6: "esc_pressed (two_frame_env [27]) 0"
    by (simp add: two_frame_env_def example_env_def esc_pressed_def)
  have v: "concat (map (frame_events (two_frame_env [27]) two_frame_vectors) [0..<Suc 0]) =
             [Imread ''seq/rgb/1.png'', Imread ''seq/depth/1.png'',
              TrackRGBD (Some 1) (Some 2) ''1.0'', WaitKey 1]"
    by (simp add: frame_events_def two_frame_vectors_def two_frame_env_def example_env_def)
  note t = poll_after_each_ingest_and_esc_stops
         [of 100 "two_frame_env [27]" "''assoc.txt''" "''seq''" two_frame_vectors 0]
  from t have p: "poll_follows_ingest (fst (ProcessImages 100 (two_frame_env [27]) ''assoc.txt'' ''seq''))"
    by (rule conjunct1)
  from t h1 h2 h3 h4 h5 h6
  have "ProcessImages 100 (two_frame_env [27]) ''assoc.txt'' ''seq'' =
          (Fopen ''assoc.txt''
             # concat (map (frame_events (two_frame_env [27]) two_frame_vectors) [0..<Suc 0]),
           Some EscPressed)"
    by blast
  then have "ProcessImages 100 (two_frame_env [27]) ''assoc.txt'' ''seq'' =
       ([Fopen ''assoc.txt'', Imread ''seq/rgb/1.png'', Imread ''seq/depth/1.png'',
         TrackRGBD (Some 1) (Some 2) ''1.0'', WaitKey 1], Some EscPressed)"
    by (simp only: v)
  with p show ?thesis by (rule conjI)
qed

subsection \<open>C9: the exit code\<close>

text \<open>
  Claim C9 at a command line with four arguments whose association file cannot be
  opened: however much fuel the reading loop is given, the process has not exited. The
  failed open sets \<open>failbit\<close> only, \<open>eof()\<close> stays false, the loop in the worker does
  not end and \<open>main\<close> waits in \<open>join\<close>.
\<close>

theorem unopened_manifest_never_exits:
  "snd (main fuel (example_env [] [] []) (example_argv ''missing.txt'')) = None"
proof -
  have "length (example_argv ''missing.txt'') = 5" by (simp add: example_argv_def)
  moreover have "fopen (example_env [] [] []) (example_argv ''missing.txt'' ! 4) = None"
    by (simp add: example_env_def example_argv_def)
  ultimately show ?thesis by (simp add: main_unopened)
qed

subsection \<open>C10: the three vectors have the same size\<close>

text \<open>
  Claim C10. When the reading loop has ended, the three vectors have the same length.
  So \<open>ProcessImages\<close> never takes the branch that reports "Number of RGB and depth
  images do not match.", and every index access of the frame loop is in range: the
  worker never ends in \<open>CountMismatch\<close> or \<open>OutOfRange\<close>, and the message is not
  among its events.
\<close>

theorem vectors_same_size_and_indices_in_range:
  "(read_association fuel E af sp = Some vs \<longrightarrow>
      length (vstrImageFilenamesD vs) = length (vstrImageFilenamesRGB vs)
      \<and> length (vTimestamps vs) = length (vstrImageFilenamesRGB vs))
   \<and> snd (ProcessImages fuel E af sp) \<noteq> Some CountMismatch
   \<and> Cerr (endl @ ''Number of RGB and depth images do not match.'' @ endl)
       \<notin> set (fst (ProcessImages fuel E af sp))
   \<and> snd (ProcessImages fuel E af sp) \<noteq> Some OutOfRange"
proof -
  have a: "read_association fuel E af sp = Some vs \<longrightarrow>
      length (vstrImageFilenamesD vs) = length (vstrImageFilenamesRGB vs)
      \<and> length (vTimestamps vs) = length (vstrImageFilenamesRGB vs)"
    using read_association_sizes [of fuel E af sp vs] by (simp add: same_sizes_def)
  have b: "snd (ProcessImages fuel E af sp) \<noteq> Some CountMismatch
     \<and> Cerr (endl @ ''Number of RGB and depth images do not match.'' @ endl)
         \<notin> set (fst (ProcessImages fuel E af sp))
     \<and> snd (ProcessImages fuel E af sp) \<noteq> Some OutOfRange"
  proof (cases "read_association fuel E af sp")
    case None
    then show ?thesis by (simp add: ProcessImages_running)
  next
    case (Some ws)
    then have s: "same_sizes ws" by (rule read_association_sizes)
    show ?thesis
    proof (cases "vstrImageFilenamesRGB ws = []")
      case True
      then show ?thesis
        by (simp add: ProcessImages_no_images [OF Some True] endl_def)
    next
      case False
      let ?nI = "sint (word_of_nat (length (vstrImageFilenamesRGB ws)) :: 32 word)"
      have "snd (track_loop E ws ?nI 0) \<noteq> OutOfRange"
        using s nImages_le by (rule track_loop_in_range) simp
      moreover have "snd (track_loop E ws ?nI 0) \<noteq> CountMismatch"
        by (rule track_loop_no_mismatch)
      ultimately show ?thesis
        using track_loop_no_mismatch_message [of E ws ?nI 0]
        by (simp add: ProcessImages_loop [OF Some False])
    qed
  qed
  from a b show ?thesis by simp
qed

text \<open>
  The theorem at a manifest of two frames.
\<close>

theorem vectors_same_size_and_indices_in_range_witness:
  "length (vstrImageFilenamesD two_frame_vectors) = length (vstrImageFilenamesRGB two_frame_vectors)
   \<and> length (vTimestamps two_frame_vectors) = length (vstrImageFilenamesRGB two_frame_vectors)
   \<and> snd (ProcessImages 100 (two_frame_env []) ''assoc.txt'' ''seq'') \<noteq> Some CountMismatch
   \<and> Cerr (endl @ ''Number of RGB and depth images do not match.'' @ endl)
       \<notin> set (fst (ProcessImages 100 (two_frame_env []) ''assoc.txt'' ''seq''))
   \<and> snd (ProcessImages 100 (two_frame_env []) ''assoc.txt'' ''seq'') \<noteq> Some OutOfRange"
proof -
  have h1: "read_association 100 (two_frame_env []) ''assoc.txt'' ''seq'' = Some two_frame_vectors"
    by code_simp
  from vectors_same_size_and_indices_in_range
         [of 100 "two_frame_env []" "''assoc.txt''" "''seq''" two_frame_vectors] h1
  show ?thesis by blast
qed

end
